theory Spec2Isabelle
  imports Main "HOL-Library.Word"
begin

section \<open>Data model of \<open>CommandLine\<close>\<close>

text \<open>
  The class \<open>CommandLine\<close> of \<open>CommandLine.cpp\<close> keeps a description, the
  pair \<open>m_argc\<close>/\<open>m_argv\<close> handed over by \<open>main\<close>, and the vector
  \<open>mArguments\<close> of registered arguments. Every registered argument optionally carries a
  typed pointer into storage owned by the caller. Pointers are modelled as addresses into an
  explicit store, so that two arguments bound to the same variable alias in the model as they
  do in the program.
\<close>

type_synonym addr = nat

text \<open>
  Modelled from the spec: the variant type \<open>Value\<close> is declared in \<open>CommandLine.hpp\<close>,
  which is not part of the sources at hand. The specification describes it as a tagged
  reference to one of boolean, integer, floating-point or string storage. The integer
  alternative is taken to be the C++ type \<open>int\<close> (32 bits, signed).
\<close>

datatype Value =
    is_BoolPtr: BoolPtr addr
  | is_IntPtr: IntPtr addr
  | is_FloatPtr: FloatPtr addr
  | is_StringPtr: StringPtr addr

record Argument =
  mFlags :: "string list"
  mValue :: "Value option"
  mHelp :: string

text \<open>
  \<open>m_argv\<close> is the array of \<open>m_argc\<close> C strings that \<open>main\<close> receives; the model holds
  it as a list, and \<open>m_argc\<close> is its length.
\<close>

record CommandLine =
  mDescription :: string
  m_argv :: "string list"
  mArguments :: "Argument list"

definition m_argc :: "CommandLine \<Rightarrow> nat" where
  "m_argc cl = length (m_argv cl)"

text \<open>
  The storage the bound pointers refer to, one memory per pointee type, together with the
  text written so far to \<open>std::cerr\<close>. Floating-point values are kept abstract (type
  \<open>'f\<close>).
\<close>

record 'f store =
  bools :: "addr \<Rightarrow> bool"
  ints :: "addr \<Rightarrow> int"
  floats :: "addr \<Rightarrow> 'f"
  strings :: "addr \<Rightarrow> string"
  cerr :: string

text \<open>The exception thrown by \<open>parse\<close>: a \<open>std::runtime_error\<close> with its message.\<close>

datatype error = RuntimeError string

definition addArgument :: "string list \<Rightarrow> Value option \<Rightarrow> string \<Rightarrow> CommandLine \<Rightarrow> CommandLine" where
  "addArgument flags val help cl =
     cl\<lparr>mArguments := mArguments cl @ [\<lparr>mFlags = flags, mValue = val, mHelp = help\<rparr>]\<rparr>"

section \<open>Library functions used by \<open>parse\<close>\<close>

text \<open>\<open>std::string::find(c)\<close>: the index of the first occurrence, \<open>None\<close> for \<open>npos\<close>.\<close>

fun find_char :: "char \<Rightarrow> string \<Rightarrow> nat option" where
  "find_char c [] = None"
| "find_char c (x # xs) = (if x = c then Some 0 else map_option Suc (find_char c xs))"

text \<open>
  Formatted extraction \<open>sstr >> *arg\<close> of an \<open>int\<close> from a fresh \<open>std::stringstream\<close>,
  as the C++ standard (C++11 and later) defines it for the classic locale: the sentry skips
  leading white space and fails at the end of input, in which case nothing is stored;
  otherwise an optional sign and the decimal digits that follow are accumulated; if there is
  no digit, zero is stored; a value outside the range of \<open>int\<close> is stored as the nearest
  bound. The stream's fail bit is never inspected by \<open>parse\<close>, so only the stored value
  is modelled: the second argument is the old content of the destination.
\<close>

definition isspace :: "char \<Rightarrow> bool" where
  "isspace c = (c = CHR '' '' \<or> c = CHR 0x09 \<or> c = CHR 0x0A \<or> c = CHR 0x0B
                \<or> c = CHR 0x0C \<or> c = CHR 0x0D)"

definition isdigit :: "char \<Rightarrow> bool" where
  "isdigit c = (c \<in> set ''0123456789'')"

definition digit_val :: "char \<Rightarrow> nat" where
  "digit_val c = of_char c - (48::nat)"

definition decimal :: "string \<Rightarrow> nat" where
  "decimal ds = foldl (\<lambda>n c. 10 * n + digit_val c) 0 ds"

definition INT_MIN :: int where "INT_MIN = - (2 ^ 31)"
definition INT_MAX :: int where "INT_MAX = 2 ^ 31 - 1"

definition clamp_int :: "int \<Rightarrow> int" where
  "clamp_int v = (if v < INT_MIN then INT_MIN else if INT_MAX < v then INT_MAX else v)"

definition extract_int :: "string \<Rightarrow> int \<Rightarrow> int" where
  "extract_int text old =
     (let s = dropWhile isspace text in
      if s = [] then old
      else
        let neg = (hd s = CHR ''-'');
            r = (if hd s = CHR ''-'' \<or> hd s = CHR ''+'' then tl s else s);
            ds = takeWhile isdigit r
        in if ds = [] then 0
           else clamp_int (if neg then - int (decimal ds) else int (decimal ds)))"

text \<open>
  Formatted extraction \<open>sstr >> *arg\<close> of a floating-point number, as far as the standard
  fixes it without floating-point arithmetic. The sentry behaves as above: nothing is stored
  when the text is white space throughout. When the first character after the white space is
  none of those with which a number can begin in any notation a library accepts (digits and
  hexadecimal digits, \<open>x\<close>, \<open>p\<close>, signs, the decimal point, the letters of \<open>inf\<close> and
  \<open>nan\<close>), no field is accumulated, the conversion fails and zero is stored. In every other
  case the value stored is computed from the text alone (the converted number, zero after a
  failed conversion, or an extreme value): this is the parameter \<open>convert\<close>, and
  \<open>zero\<close> stands for \<open>0.0\<close>.
\<close>

definition extract_float :: "(string \<Rightarrow> 'f) \<Rightarrow> 'f \<Rightarrow> string \<Rightarrow> 'f \<Rightarrow> 'f" where
  "extract_float convert zero text old =
     (let s = dropWhile isspace text in
      if s = [] then old
      else if hd s \<notin> set ''0123456789abcdefxABCDEFX+-.pPiInN'' then zero
      else convert s)"

section \<open>\<open>CommandLine::parse\<close>\<close>

text \<open>
  Lines 86 to 97: the token is copied into \<open>flag\<close>; if it contains \<open>=\<close>, \<open>value\<close>
  becomes the part after the first \<open>=\<close> and \<open>flag\<close> the part before it. The result is
  the pair \<open>(flag, value)\<close>.
\<close>

definition split_token :: "string \<Rightarrow> string \<times> string" where
  "split_token tok =
     (case find_char CHR ''='' tok of
        None \<Rightarrow> (tok, [])
      | Some equalPos \<Rightarrow> (take equalPos tok, drop (equalPos + 1) tok))"

definition missing_value_message :: "string \<Rightarrow> string" where
  "missing_value_message flag =
     ''Failed to parse command line arguments: Missing value for argument ''
       @ [CHR 0x22] @ flag @ [CHR 0x22] @ ''!''"

definition unknown_argument_warning :: "string \<Rightarrow> string" where
  "unknown_argument_warning flag =
     ''Ignoring unknown command line argument '' @ [CHR 0x22] @ flag @ [CHR 0x22]
       @ ''.'' @ [CHR 0x0A]"

text \<open>
  Lines 114 to 153, the body of the \<open>if\<close> for a matching argument that has a value: the
  chain boolean / empty value / string / anything else. The result is the new
  \<open>valueIsSeparate\<close> and the new store, or the exception together with the store at the
  moment it is thrown. The parameter \<open>fx\<close> is the extraction of a floating-point number
  from text (given the old content of the destination). The visitor of line 147 is only
  reached for numeric alternatives.
\<close>

definition store_value ::
  "(string \<Rightarrow> 'f \<Rightarrow> 'f) \<Rightarrow> Value \<Rightarrow> string \<Rightarrow> string \<Rightarrow> bool \<Rightarrow> 'f store
     \<Rightarrow> (error \<times> 'f store) + (bool \<times> 'f store)" where
  "store_value fx v flag val valueIsSeparate st =
     (if is_BoolPtr v then
        (case v of BoolPtr p \<Rightarrow>
           Inr (if val \<noteq> [] \<and> val \<noteq> ''true'' \<and> val \<noteq> ''false'' then False
                else valueIsSeparate,
                st\<lparr>bools := (bools st)(p := (val \<noteq> ''false''))\<rparr>)
         | _ \<Rightarrow> Inr (valueIsSeparate, st))
      else if val = [] then
        Inl (RuntimeError (missing_value_message flag), st)
      else if is_StringPtr v then
        (case v of StringPtr p \<Rightarrow>
           Inr (valueIsSeparate, st\<lparr>strings := (strings st)(p := val)\<rparr>)
         | _ \<Rightarrow> Inr (valueIsSeparate, st))
      else
        (case v of
           IntPtr p \<Rightarrow>
             Inr (valueIsSeparate, st\<lparr>ints := (ints st)(p := extract_int val (ints st p))\<rparr>)
         | FloatPtr p \<Rightarrow>
             Inr (valueIsSeparate, st\<lparr>floats := (floats st)(p := fx val (floats st p))\<rparr>)
         | _ \<Rightarrow> Inr (valueIsSeparate, st)))"

text \<open>
  Lines 106 to 157: the loop over \<open>mArguments\<close>, left at the first argument one of whose
  flags equals \<open>flag\<close>. The result is \<open>(foundArgument, valueIsSeparate, store)\<close>.
\<close>

fun search_arguments ::
  "(string \<Rightarrow> 'f \<Rightarrow> 'f) \<Rightarrow> Argument list \<Rightarrow> string \<Rightarrow> string \<Rightarrow> bool \<Rightarrow> 'f store
     \<Rightarrow> (error \<times> 'f store) + (bool \<times> bool \<times> 'f store)" where
  "search_arguments fx [] flag val valueIsSeparate st = Inr (False, valueIsSeparate, st)"
| "search_arguments fx (argument # rest) flag val valueIsSeparate st =
     (if flag \<in> set (mFlags argument) then
        (case mValue argument of
           None \<Rightarrow> Inr (True, valueIsSeparate, st)
         | Some v \<Rightarrow>
             (case store_value fx v flag val valueIsSeparate st of
                Inl e \<Rightarrow> Inl e
              | Inr (sep, st') \<Rightarrow> Inr (True, sep, st')))
      else search_arguments fx rest flag val valueIsSeparate st)"

text \<open>
  Lines 84 to 164, one pass through the body of the \<open>while\<close> loop up to the warning:
  \<open>valueIsSeparate\<close> starts as \<open>false\<close> (the branch that would set it is commented
  out in the source).
\<close>

definition parse_iteration ::
  "(string \<Rightarrow> 'f \<Rightarrow> 'f) \<Rightarrow> Argument list \<Rightarrow> string \<Rightarrow> 'f store
     \<Rightarrow> (error \<times> 'f store) + (bool \<times> bool \<times> 'f store)" where
  "parse_iteration fx arguments tok st =
     (case search_arguments fx arguments (fst (split_token tok)) (snd (split_token tok)) False st of
        Inl e \<Rightarrow> Inl e
      | Inr (foundArgument, valueIsSeparate, st') \<Rightarrow>
          Inr (foundArgument, valueIsSeparate,
               if \<not> foundArgument
               then st'\<lparr>cerr := cerr st' @ unknown_argument_warning (fst (split_token tok))\<rparr>
               else st'))"

text \<open>Lines 166 to 173: the index of the next token to look at.\<close>

definition next_index :: "nat \<Rightarrow> bool \<Rightarrow> bool \<Rightarrow> nat" where
  "next_index i foundArgument valueIsSeparate =
     (if foundArgument \<and> valueIsSeparate then i + 1 + 1 else i + 1)"

text \<open>The \<open>while\<close> loop of line 81, from index \<open>i\<close>.\<close>

function parse_from :: "(string \<Rightarrow> 'f \<Rightarrow> 'f) \<Rightarrow> CommandLine \<Rightarrow> nat \<Rightarrow> 'f store
     \<Rightarrow> (error \<times> 'f store) + 'f store" where
  "parse_from fx cl i st =
     (if i < m_argc cl then
        (case parse_iteration fx (mArguments cl) (m_argv cl ! i) st of
           Inl e \<Rightarrow> Inl e
         | Inr (foundArgument, valueIsSeparate, st') \<Rightarrow>
             parse_from fx cl (next_index i foundArgument valueIsSeparate) st')
      else Inr st)"
  by pat_completeness auto
termination
  by (relation "measure (\<lambda>(fx, cl, i, st). m_argc cl - i)")
     (auto simp: next_index_def)

text \<open>\<open>parse\<close> starts at index 1: the program name is skipped.\<close>

definition parse :: "(string \<Rightarrow> 'f \<Rightarrow> 'f) \<Rightarrow> CommandLine \<Rightarrow> 'f store
     \<Rightarrow> (error \<times> 'f store) + 'f store" where
  "parse fx cl st = parse_from fx cl 1 st"

section \<open>\<open>CommandLine::printHelp\<close>\<close>

text \<open>
  The output stream is the text written to it so far; \<open>printHelp\<close> returns it extended.
  \<open>std::endl\<close> writes a line feed. Sizes and positions of type \<open>size_t\<close> are 64 bits
  wide, with \<open>npos\<close> the largest value; \<open>maxFlagLength\<close> and \<open>flagLength\<close> are
  \<open>uint32_t\<close>.
\<close>

definition newline :: string where
  "newline = [CHR 0x0A]"

definition npos :: nat where
  "npos = 2 ^ 64 - 1"

text \<open>
  \<open>std::string::substr(pos, n)\<close> for a position within the string, which is what every
  call in \<open>printHelp\<close> passes (0, or a position returned by \<open>find_first_of\<close>), and
  \<open>std::string::find_first_of(c, pos)\<close>.
\<close>

definition substr :: "string \<Rightarrow> nat \<Rightarrow> nat \<Rightarrow> string" where
  "substr s pos n = take n (drop pos s)"

definition find_first_of :: "char \<Rightarrow> string \<Rightarrow> nat \<Rightarrow> nat option" where
  "find_first_of c s pos = map_option (\<lambda>k. pos + k) (find_char c (drop pos s))"

text \<open>
  \<open>sstr << std::left << std::setw(w) << s\<close> on an empty stream: \<open>s\<close> followed by blanks
  up to the width \<open>w\<close>, an \<open>int\<close>; nothing is added when \<open>w\<close> is not larger than
  the length of \<open>s\<close>.
\<close>

definition setw_left :: "int \<Rightarrow> string \<Rightarrow> string" where
  "setw_left w s = s @ replicate (nat (w - int (length s))) CHR '' ''"

text \<open>Lines 29 to 39: the loops that compute \<open>flagLength\<close> and \<open>maxFlagLength\<close>.\<close>

definition flagLength :: "string list \<Rightarrow> 32 word" where
  "flagLength flags = foldl (\<lambda>n flag. n + (of_nat (length flag) + 2)) 0 flags"

definition maxFlagLength :: "Argument list \<Rightarrow> 32 word" where
  "maxFlagLength arguments =
     foldl (\<lambda>m argument. max m (flagLength (mFlags argument))) 0 arguments"

text \<open>Lines 44 to 47: the string \<open>flags\<close>.\<close>

definition joined_flags :: "string list \<Rightarrow> string" where
  "joined_flags flags = foldl (\<lambda>s flag. s @ flag @ '', '') [] flags"

text \<open>
  Lines 57 to 71: the \<open>while\<close> loop over the help text, with the local variables
  \<open>spacePos\<close>, \<open>lineWidth\<close> and \<open>sstr\<close> and the output stream as arguments. The
  difference \<open>nextspacePos - spacePos\<close> is computed in \<open>size_t\<close>; in the last round
  \<open>nextspacePos\<close> is \<open>npos\<close>.
\<close>

function help_loop :: "32 word \<Rightarrow> string \<Rightarrow> nat \<Rightarrow> 64 word \<Rightarrow> string \<Rightarrow> string \<Rightarrow> string" where
  "help_loop width help spacePos lineWidth sstr os =
     (case find_first_of CHR '' '' help (spacePos + 1) of
        None \<Rightarrow>
          (let sstr' = sstr @ substr help spacePos (npos - spacePos);
               lineWidth' = lineWidth + (of_nat npos - of_nat spacePos)
           in if 60 < lineWidth' then os @ sstr' @ newline else os)
      | Some nextspacePos \<Rightarrow>
          (let sstr' = sstr @ substr help spacePos (nextspacePos - spacePos);
               lineWidth' = lineWidth + (of_nat nextspacePos - of_nat spacePos)
           in if 60 < lineWidth'
              then help_loop width help nextspacePos 0 (setw_left (sint (width - 1)) '' '')
                     (os @ sstr' @ newline)
              else help_loop width help nextspacePos lineWidth' sstr' os))"
  by pat_completeness auto
termination
proof -
  have bound: "k < length s" if "find_char c s = Some k" for c :: char and s k
    using that by (induction s arbitrary: k) (auto split: if_splits)
  show ?thesis
    by (relation "measure (\<lambda>(width, help, spacePos, lineWidth, sstr, os). length help - spacePos)")
       (auto simp: find_first_of_def dest!: bound)
qed

text \<open>Lines 42 to 72: the body of the second loop over \<open>mArguments\<close>, for one argument.\<close>

definition print_argument :: "32 word \<Rightarrow> Argument \<Rightarrow> string \<Rightarrow> string" where
  "print_argument width argument os =
     (let flags = joined_flags (mFlags argument);
          sstr = setw_left (sint width)
                   (substr flags 0 (unat ((of_nat (length flags) :: 64 word) - 2)))
      in help_loop width (mHelp argument) 0 0 sstr os)"

text \<open>Lines 20 to 73.\<close>

definition printHelp :: "CommandLine \<Rightarrow> string \<Rightarrow> string" where
  "printHelp cl os =
     foldl (\<lambda>os argument. print_argument (maxFlagLength (mArguments cl)) argument os)
       (os @ mDescription cl @ newline) (mArguments cl)"

declare parse_from.simps [simp del]

declare help_loop.simps [simp del]

section \<open>Auxiliary notions for stating the properties\<close>

text \<open>
  The first registered argument one of whose flags is the given string: what the loop of
  line 108 stops at.
\<close>

definition matching_argument :: "Argument list \<Rightarrow> string \<Rightarrow> Argument option" where
  "matching_argument arguments flag = List.find (\<lambda>argument. flag \<in> set (mFlags argument)) arguments"

text \<open>
  Processing a list of tokens one after the other, each by one pass through the loop body,
  until one of them throws. \<open>parse\<close> is shown below to do exactly this with the
  tokens after the program name.
\<close>

fun run_tokens :: "(string \<Rightarrow> 'f \<Rightarrow> 'f) \<Rightarrow> Argument list \<Rightarrow> string list \<Rightarrow> 'f store
     \<Rightarrow> (error \<times> 'f store) + 'f store" where
  "run_tokens fx arguments [] st = Inr st"
| "run_tokens fx arguments (tok # toks) st =
     (case parse_iteration fx arguments tok st of
        Inl e \<Rightarrow> Inl e
      | Inr (foundArgument, valueIsSeparate, st') \<Rightarrow> run_tokens fx arguments toks st')"

text \<open>The destinations without the diagnostic stream, and the same for an outcome.\<close>

definition memory :: "'f store \<Rightarrow> (addr \<Rightarrow> bool) \<times> (addr \<Rightarrow> int) \<times> (addr \<Rightarrow> 'f) \<times> (addr \<Rightarrow> string)" where
  "memory st = (bools st, ints st, floats st, strings st)"

definition outcome_memory :: "(error \<times> 'f store) + 'f store \<Rightarrow> (error \<times> _) + _" where
  "outcome_memory r = (case r of Inl (e, st) \<Rightarrow> Inl (e, memory st) | Inr st \<Rightarrow> Inr (memory st))"



text \<open>An argument with the flags that contain \<open>=\<close> removed.\<close>

definition reachable_flags :: "Argument \<Rightarrow> Argument" where
  "reachable_flags a = a\<lparr>mFlags := filter (\<lambda>f. CHR ''='' \<notin> set f) (mFlags a)\<rparr>"

text \<open>A small registry and store on which the theorems are instantiated.\<close>

definition demo_arguments :: "Argument list" where
  "demo_arguments =
     [\<lparr>mFlags = [''-h'', ''--help''], mValue = None, mHelp = ''Print this help.''\<rparr>,
      \<lparr>mFlags = [''-v'', ''--verbose''], mValue = Some (BoolPtr 0), mHelp = ''Be chatty.''\<rparr>,
      \<lparr>mFlags = [''-n'', ''--name''], mValue = Some (StringPtr 0), mHelp = ''Name of the device.''\<rparr>,
      \<lparr>mFlags = [''-r'', ''--rate''], mValue = Some (IntPtr 0), mHelp = ''Sample rate.''\<rparr>,
      \<lparr>mFlags = [''--gain''], mValue = Some (FloatPtr 0), mHelp = ''Gain.''\<rparr>]"

definition demo_cl :: "string list \<Rightarrow> CommandLine" where
  "demo_cl argv = \<lparr>mDescription = ''Capture audio.'', m_argv = argv, mArguments = demo_arguments\<rparr>"

definition demo_store :: "unit store" where
  "demo_store = \<lparr>bools = (\<lambda>_. False), ints = (\<lambda>_. 5), floats = (\<lambda>_. ()), strings = (\<lambda>_. ''none''), cerr = []\<rparr>"

definition keep_float :: "string \<Rightarrow> unit \<Rightarrow> unit" where
  "keep_float text old = old"

text \<open>A store whose floating-point cells hold numbers standing for \<open>5.0\<close>.\<close>

definition demo_gain_store :: "int store" where
  "demo_gain_store = \<lparr>bools = (\<lambda>_. False), ints = (\<lambda>_. 5), floats = (\<lambda>_. 5), strings = (\<lambda>_. ''none''), cerr = []\<rparr>"

section \<open>The help layout as the specification words it\<close>

text \<open>
  The description of \<open>printHelp\<close> in the specification, written down independently of the
  code: the width of the flag column is the largest alias block, each alias counting its
  length plus 2; the aliases are joined by a comma and a blank and left-aligned in that
  column; the help text is cut in front of every blank into words, which are accumulated on a
  line until its width exceeds 60, whereupon the line is flushed and, if there is a next word,
  a continuation line starts with \<open>maxFlagLength - 1\<close> blanks.
\<close>

definition spec_block_length :: "string list \<Rightarrow> nat" where
  "spec_block_length flags = sum_list (map (\<lambda>flag. length flag + 2) flags)"

definition spec_maxFlagLength :: "Argument list \<Rightarrow> nat" where
  "spec_maxFlagLength arguments =
     foldr max (map (\<lambda>argument. spec_block_length (mFlags argument)) arguments) 0"

fun spec_join :: "string list \<Rightarrow> string" where
  "spec_join [] = []"
| "spec_join [flag] = flag"
| "spec_join (flag # flags) = flag @ '', '' @ spec_join flags"

definition spec_left_align :: "nat \<Rightarrow> string \<Rightarrow> string" where
  "spec_left_align w s = s @ replicate (w - length s) CHR '' ''"

function spec_words :: "string \<Rightarrow> string list" where
  "spec_words [] = [[]]"
| "spec_words (c # cs) =
     (if dropWhile (\<lambda>x. x \<noteq> CHR '' '') cs = []
      then [c # cs]
      else (c # takeWhile (\<lambda>x. x \<noteq> CHR '' '') cs)
             # spec_words (dropWhile (\<lambda>x. x \<noteq> CHR '' '') cs))"
  by pat_completeness auto
termination
  by (relation "measure length") (auto simp: less_Suc_eq_le length_dropWhile_le)

fun spec_wrap :: "nat \<Rightarrow> string \<Rightarrow> nat \<Rightarrow> string list \<Rightarrow> string list" where
  "spec_wrap pad line w [] = [line]"
| "spec_wrap pad line w (word # ws) =
     (if 60 < w + length word \<and> ws \<noteq> []
      then (line @ word) # spec_wrap pad (replicate pad CHR '' '') 0 ws
      else spec_wrap pad (line @ word) (w + length word) ws)"

definition spec_argument_lines :: "nat \<Rightarrow> Argument \<Rightarrow> string list" where
  "spec_argument_lines m argument =
     spec_wrap (m - 1) (spec_left_align m (spec_join (mFlags argument))) 0
       (spec_words (mHelp argument))"

definition spec_printHelp :: "CommandLine \<Rightarrow> string" where
  "spec_printHelp cl =
     mDescription cl @ newline
       @ concat (map (\<lambda>argument.
           concat (map (\<lambda>line. line @ newline)
             (spec_argument_lines (spec_maxFlagLength (mArguments cl)) argument)))
           (mArguments cl))"

text \<open>A registry whose second help text needs two lines.\<close>

definition help_cl :: CommandLine where
  "help_cl = \<lparr>mDescription = ''Capture audio.'', m_argv = [''prog''],
     mArguments =
       [\<lparr>mFlags = [''-h'', ''--help''], mValue = None, mHelp = ''Print this help.''\<rparr>,
        \<lparr>mFlags = [''-d'', ''--device''], mValue = Some (IntPtr 0),
         mHelp = ''Index of the audio input device to open for capturing, as shown by the list of devices.''\<rparr>]\<rparr>"

section \<open>The loop visits the tokens one by one\<close>

lemma store_value_sep:
  "store_value fx v flag val False st = Inr (sep, st') \<Longrightarrow> \<not> sep"
  by (auto simp: store_value_def split: if_splits Value.splits)

lemma search_arguments_sep:
  "search_arguments fx arguments flag val False st = Inr (found, sep, st') \<Longrightarrow> \<not> sep"
  by (induction arguments)
     (auto split: if_splits option.splits sum.splits dest: store_value_sep)

lemma parse_iteration_sep:
  "parse_iteration fx arguments tok st = Inr (found, sep, st') \<Longrightarrow> \<not> sep"
  by (auto simp: parse_iteration_def split: sum.splits dest: search_arguments_sep)
lemma parse_from_run_tokens:
  "parse_from fx cl i st = run_tokens fx (mArguments cl) (drop i (m_argv cl)) st"
proof (induction fx cl i st rule: parse_from.induct)
  case (1 fx cl i st)
  show ?case
  proof (cases "i < m_argc cl")
    case False
    then show ?thesis by (simp add: m_argc_def parse_from.simps [of fx cl i st])
  next
    case True
    then have d: "drop i (m_argv cl) = m_argv cl ! i # drop (Suc i) (m_argv cl)"
      by (simp add: m_argc_def Cons_nth_drop_Suc)
    show ?thesis
    proof (cases "parse_iteration fx (mArguments cl) (m_argv cl ! i) st")
      case (Inl e)
      with True d show ?thesis by (simp add: parse_from.simps [of fx cl i st])
    next
      case (Inr r)
      obtain found sep st' where r: "r = (found, sep, st')" by (cases r) auto
      with Inr have "\<not> sep" using parse_iteration_sep by blast
      with Inr r have n: "next_index i found sep = Suc i" by (simp add: next_index_def)
      have "parse_from fx cl i st = parse_from fx cl (Suc i) st'"
        using True Inr r n by (simp add: parse_from.simps [of fx cl i st])
      also have "\<dots> = run_tokens fx (mArguments cl) (drop (Suc i) (m_argv cl)) st'"
        using "1.IH" [OF True Inr [unfolded r] refl refl] n by simp
      finally show ?thesis using d Inr r by simp
    qed
  qed
qed

lemma search_arguments_matching:
  "search_arguments fx arguments flag val sep st =
     (case matching_argument arguments flag of
        None \<Rightarrow> Inr (False, sep, st)
      | Some a \<Rightarrow>
          (case mValue a of
             None \<Rightarrow> Inr (True, sep, st)
           | Some v \<Rightarrow>
               (case store_value fx v flag val sep st of
                  Inl e \<Rightarrow> Inl e
                | Inr (sep', st') \<Rightarrow> Inr (True, sep', st'))))"
  by (induction arguments) (auto simp: matching_argument_def)

lemma run_tokens_append:
  "run_tokens fx arguments (pre @ post) st =
     (case run_tokens fx arguments pre st of
        Inl e \<Rightarrow> Inl e
      | Inr st1 \<Rightarrow> run_tokens fx arguments post st1)"
  by (induction pre arbitrary: st) (auto split: sum.splits)

lemma parse_run_tokens:
  "parse fx cl st = run_tokens fx (mArguments cl) (tl (m_argv cl)) st"
  by (simp add: parse_def parse_from_run_tokens drop_Suc)

lemma parse_argv:
  "parse fx (cl\<lparr>m_argv := prog # toks\<rparr>) st = run_tokens fx (mArguments cl) toks st"
  by (simp add: parse_run_tokens)

lemma find_char_None: "find_char c s = None \<longleftrightarrow> c \<notin> set s"
  by (induction s) auto

lemma find_char_Some: "find_char c s = Some n \<Longrightarrow> c \<notin> set (take n s) \<and> n < length s \<and> s ! n = c"
  by (induction s arbitrary: n) (auto split: if_splits)

lemma find_char_append: "c \<notin> set f \<Longrightarrow> find_char c (f @ c # v) = Some (length f)"
  by (induction f) auto

lemma split_token_flag_no_eq: "CHR ''='' \<notin> set (fst (split_token tok))"
  by (auto simp: split_token_def find_char_None split: option.splits dest: find_char_Some)

lemma split_token_plain: "CHR ''='' \<notin> set tok \<Longrightarrow> split_token tok = (tok, [])"
  using find_char_None [of "CHR ''=''" tok] by (simp add: split_token_def)

lemma split_token_attached:
  "CHR ''='' \<notin> set flag \<Longrightarrow> split_token (flag @ CHR ''='' # val) = (flag, val)"
  by (simp add: split_token_def find_char_append)

lemma parse_iteration_matching:
  "parse_iteration fx arguments tok st =
     (case matching_argument arguments (fst (split_token tok)) of
        None \<Rightarrow> Inr (False, False, st\<lparr>cerr := cerr st @ unknown_argument_warning (fst (split_token tok))\<rparr>)
      | Some a \<Rightarrow>
          (case mValue a of
             None \<Rightarrow> Inr (True, False, st)
           | Some v \<Rightarrow>
               (case store_value fx v (fst (split_token tok)) (snd (split_token tok)) False st of
                  Inl e \<Rightarrow> Inl e
                | Inr (sep', st') \<Rightarrow> Inr (True, sep', st'))))"
  by (simp add: parse_iteration_def search_arguments_matching split: option.splits sum.splits)

lemmas demo_eval = demo_cl_def demo_arguments_def demo_store_def keep_float_def
  parse_run_tokens parse_iteration_def split_token_def store_value_def
  matching_argument_def missing_value_message_def unknown_argument_warning_def

lemma store_value_memory:
  "memory st = memory st' \<Longrightarrow>
   map_sum (apsnd memory) (apsnd memory) (store_value fx v flag val sep st) =
   map_sum (apsnd memory) (apsnd memory) (store_value fx v flag val sep st')"
  by (cases v) (simp_all add: store_value_def memory_def)

lemma parse_iteration_memory:
  assumes "memory st = memory st'"
  shows "map_sum (apsnd memory) (apsnd (apsnd memory)) (parse_iteration fx arguments tok st) =
         map_sum (apsnd memory) (apsnd (apsnd memory)) (parse_iteration fx arguments tok st')"
proof (cases "matching_argument arguments (fst (split_token tok))")
  case None
  with assms show ?thesis by (simp add: parse_iteration_matching memory_def)
next
  case (Some a)
  show ?thesis
  proof (cases "mValue a")
    case None
    with Some assms show ?thesis by (simp add: parse_iteration_matching)
  next
    case (Some v)
    have m: "matching_argument arguments (fst (split_token tok)) = Some a" by fact
    from store_value_memory [OF assms, of fx v "fst (split_token tok)" "snd (split_token tok)" False]
    show ?thesis
      by (cases "store_value fx v (fst (split_token tok)) (snd (split_token tok)) False st";
          cases "store_value fx v (fst (split_token tok)) (snd (split_token tok)) False st'")
         (auto simp: parse_iteration_matching m Some)
  qed
qed

lemma run_tokens_memory:
  "memory st = memory st' \<Longrightarrow>
   outcome_memory (run_tokens fx arguments toks st) = outcome_memory (run_tokens fx arguments toks st')"
proof (induction toks arbitrary: st st')
  case Nil
  then show ?case by (simp add: outcome_memory_def)
next
  case (Cons tok toks)
  have r: "map_sum (apsnd memory) (apsnd (apsnd memory)) (parse_iteration fx arguments tok st) =
         map_sum (apsnd memory) (apsnd (apsnd memory)) (parse_iteration fx arguments tok st')"
    using Cons.prems by (rule parse_iteration_memory)
  show ?case
  proof (cases "parse_iteration fx arguments tok st")
    case (Inl x)
    with r obtain y where y: "parse_iteration fx arguments tok st' = Inl y" "apsnd memory x = apsnd memory y"
      by (cases "parse_iteration fx arguments tok st'") auto
    with Inl show ?thesis by (cases x; cases y) (simp add: outcome_memory_def)
  next
    case (Inr x)
    with r obtain y where y: "parse_iteration fx arguments tok st' = Inr y"
       "apsnd (apsnd memory) x = apsnd (apsnd memory) y"
      by (cases "parse_iteration fx arguments tok st'") auto
    obtain f sp s where x: "x = (f, sp, s)" by (cases x) auto
    obtain f' sp' s' where y': "y = (f', sp', s')" by (cases y) auto
    from y x y' have "memory s = memory s'" by simp
    from Cons.IH [OF this] Inr y x y' show ?thesis by simp
  qed
qed





lemma search_arguments_reachable:
  "CHR ''='' \<notin> set flag \<Longrightarrow>
   search_arguments fx (map reachable_flags arguments) flag val sep st =
   search_arguments fx arguments flag val sep st"
  by (induction arguments) (auto simp: reachable_flags_def)

lemma run_tokens_reachable:
  "run_tokens fx (map reachable_flags arguments) toks st = run_tokens fx arguments toks st"
  by (induction toks arbitrary: st)
     (auto simp: parse_iteration_def search_arguments_reachable split_token_flag_no_eq
           split: sum.splits)

lemma extract_int_no_numeral:
  "val \<noteq> [] \<Longrightarrow> \<not> isspace (hd val) \<Longrightarrow> \<not> isdigit (hd val) \<Longrightarrow> hd val \<noteq> CHR ''-'' \<Longrightarrow> hd val \<noteq> CHR ''+''
   \<Longrightarrow> extract_int val old = 0"
  by (cases val) (simp_all add: extract_int_def)

lemma extract_int_blank:
  "\<forall>c \<in> set val. isspace c \<Longrightarrow> extract_int val old = old"
  by (simp add: extract_int_def)

lemma isdigit_not_space_sign:
  "isdigit c \<Longrightarrow> \<not> isspace c \<and> c \<noteq> CHR ''-'' \<and> c \<noteq> CHR ''+''"
  by (auto simp: isdigit_def isspace_def)

lemma extract_int_numeral:
  assumes "ds \<noteq> []" "\<forall>c \<in> set ds. isdigit c" "rest = [] \<or> \<not> isdigit (hd rest)"
  shows "extract_int (ds @ rest) old = clamp_int (int (decimal ds))"
proof -
  from assms(1) obtain d ds' where ds: "ds = d # ds'" by (cases ds) auto
  with assms(2) have d: "\<not> isspace d" "d \<noteq> CHR ''-''" "d \<noteq> CHR ''+''"
    using isdigit_not_space_sign [of d] by simp_all
  have "takeWhile isdigit rest = []"
    using assms(3) by (cases rest) auto
  with assms(2) have tw: "takeWhile isdigit (ds @ rest) = ds"
    by (simp add: takeWhile_append2)
  have dw: "dropWhile isspace (ds @ rest) = ds @ rest"
    using d(1) by (simp add: ds)
  have hd: "hd (ds @ rest) = d" by (simp add: ds)
  show ?thesis
    unfolding extract_int_def dw Let_def hd
    using d(2,3) assms(1) by (simp add: tw)
qed

lemma matching_argument_Some:
  "matching_argument arguments flag = Some a \<Longrightarrow> flag \<in> set (mFlags a)"
  by (auto simp: matching_argument_def find_Some_iff)

lemma extract_int_skip_ws:
  "\<forall>c \<in> set ws. isspace c \<Longrightarrow> extract_int (ws @ t) old = extract_int t old"
  by (simp add: extract_int_def dropWhile_append2)

lemma extract_int_independent:
  assumes "\<not> (\<forall>c \<in> set val. isspace c)"
  shows "extract_int val old = extract_int val old'"
proof -
  from assms have "dropWhile isspace val \<noteq> []" by (simp add: dropWhile_eq_Nil_conv)
  then show ?thesis by (simp only: extract_int_def Let_def if_False)
qed

lemma extract_int_unchanged_iff:
  "(\<forall>old. extract_int val old = old) \<longleftrightarrow> (\<forall>c \<in> set val. isspace c)"
proof
  assume a: "\<forall>old. extract_int val old = old"
  show "\<forall>c \<in> set val. isspace c"
  proof (rule ccontr)
    assume "\<not> (\<forall>c \<in> set val. isspace c)"
    then have "extract_int val 0 = extract_int val 1" by (rule extract_int_independent)
    with a show False by simp
  qed
next
  assume "\<forall>c \<in> set val. isspace c"
  then show "\<forall>old. extract_int val old = old" by (simp add: extract_int_blank)
qed

lemma sign_not_space: "\<not> isspace CHR ''-''" "\<not> isspace CHR ''+''"
  by (simp_all add: isspace_def)

lemma takeWhile_digits:
  "\<forall>c \<in> set ds. isdigit c \<Longrightarrow> rest = [] \<or> \<not> isdigit (hd rest) \<Longrightarrow>
   takeWhile isdigit (ds @ rest) = ds"
  by (cases rest) (auto simp: takeWhile_append2)

lemma extract_int_signed:
  assumes "sg = CHR ''-'' \<or> sg = CHR ''+''"
    and "\<forall>c \<in> set ds. isdigit c" and "rest = [] \<or> \<not> isdigit (hd rest)"
  shows "extract_int (sg # ds @ rest) old =
           (if ds = [] then 0
            else clamp_int (if sg = CHR ''-'' then - int (decimal ds) else int (decimal ds)))"
  using assms(1) takeWhile_digits [OF assms(2,3)] sign_not_space
  by (auto simp: extract_int_def)

lemma extract_int_field:
  assumes ws: "\<forall>c \<in> set ws. isspace c"
    and sg: "sg = [] \<or> sg = ''-'' \<or> sg = ''+''"
    and ds: "\<forall>c \<in> set ds. isdigit c"
    and rest: "rest = [] \<or> \<not> isdigit (hd rest)"
    and ne: "sg = [] \<and> ds = [] \<longrightarrow>
               rest \<noteq> [] \<and> \<not> isspace (hd rest) \<and> hd rest \<noteq> CHR ''-'' \<and> hd rest \<noteq> CHR ''+''"
  shows "extract_int (ws @ sg @ ds @ rest) old =
           (if ds = [] then 0
            else clamp_int (if sg = ''-'' then - int (decimal ds) else int (decimal ds)))"
proof -
  have skip: "extract_int (ws @ sg @ ds @ rest) old = extract_int (sg @ ds @ rest) old"
    using ws by (rule extract_int_skip_ws)
  show ?thesis
  proof (cases "sg = []")
    case False
    with sg obtain c where c: "sg = [c]" "c = CHR ''-'' \<or> c = CHR ''+''" by auto
    from extract_int_signed [OF c(2) ds rest, of old] c skip show ?thesis by auto
  next
    case True
    show ?thesis
    proof (cases "ds = []")
      case False
      from extract_int_numeral [OF False ds rest, of old] True False skip
      show ?thesis by simp
    next
      case ds0: True
      with True ne have r: "rest \<noteq> []" "\<not> isspace (hd rest)" "hd rest \<noteq> CHR ''-''" "hd rest \<noteq> CHR ''+''"
        by simp_all
      with rest have "\<not> isdigit (hd rest)" by simp
      from extract_int_no_numeral [OF r(1,2) this r(3,4), of old] True ds0 skip
      show ?thesis by simp
    qed
  qed
qed

lemma extract_float_independent:
  assumes "\<not> (\<forall>c \<in> set val. isspace c)"
  shows "extract_float convert zero val old = extract_float convert zero val old'"
proof -
  from assms have "dropWhile isspace val \<noteq> []" by (simp add: dropWhile_eq_Nil_conv)
  then show ?thesis by (simp only: extract_float_def Let_def if_False)
qed

section \<open>Properties of \<open>parse\<close>\<close>

text \<open>
  C1. Once the tokens before it have been parsed without error, a token whose flag selects an
  argument bound to a string or numeric destination and whose value is empty makes \<open>parse\<close>
  throw the runtime error whose message quotes the flag. The store is the one reached before
  that token, whatever tokens follow: none of them is processed.
\<close>

theorem missing_value_aborts_parse:
  assumes "matching_argument (mArguments cl) (fst (split_token tok)) = Some a"
    and "mValue a = Some v" and "\<not> is_BoolPtr v"
    and "snd (split_token tok) = []"
    and "parse fx (cl\<lparr>m_argv := prog # pre\<rparr>) st = Inr st1"
  shows "parse fx (cl\<lparr>m_argv := prog # pre @ tok # post\<rparr>) st =
           Inl (RuntimeError (''Failed to parse command line arguments: Missing value for argument ''
                  @ [CHR 0x22] @ fst (split_token tok) @ [CHR 0x22] @ ''!''), st1)"
proof -
  have "parse_iteration fx (mArguments cl) tok st1 =
          Inl (RuntimeError (missing_value_message (fst (split_token tok))), st1)"
    using assms(1-4) by (simp add: parse_iteration_matching store_value_def)
  then show ?thesis
    using assms(5) by (simp add: parse_argv run_tokens_append missing_value_message_def)
qed

theorem missing_value_aborts_parse_witness:
  "parse keep_float (demo_cl [''prog'', ''--verbose'', ''--rate='', ''--name=x'']) demo_store =
     Inl (RuntimeError (missing_value_message ''--rate''),
          demo_store\<lparr>bools := (bools demo_store)(0 := True)\<rparr>)"
proof -
  have 1: "matching_argument (mArguments (demo_cl [])) (fst (split_token ''--rate='')) = Some \<lparr>mFlags = [''-r'', ''--rate''], mValue = Some (IntPtr 0), mHelp = ''Sample rate.''\<rparr>"
    by (simp add: demo_eval)
  have 2: "snd (split_token ''--rate='') = []" by (simp add: demo_eval)
  have 3: "parse keep_float ((demo_cl [])\<lparr>m_argv := ''prog'' # [''--verbose'']\<rparr>) demo_store = Inr (demo_store\<lparr>bools := (bools demo_store)(0 := True)\<rparr>)"
    by (simp add: demo_eval)
  have 4: "fst (split_token ''--rate='') = ''--rate''" by (simp add: demo_eval)
  show ?thesis
    using missing_value_aborts_parse [OF 1 _ _ 2 3, of "IntPtr 0" "[''--name=x'']"]
    by (simp add: 4 demo_cl_def missing_value_message_def)
qed

text \<open>
  C2. A token whose flag selects an argument bound to a boolean destination stores \<open>true\<close>
  when no value is attached, \<open>false\<close> when the attached value is exactly \<open>false\<close>, and
  \<open>true\<close> for every other attached value (the empty one included).
\<close>

theorem boolean_flag_value:
  assumes "CHR ''='' \<notin> set flag"
    and "matching_argument (mArguments cl) flag = Some a"
    and "mValue a = Some (BoolPtr p)"
    and "parse fx (cl\<lparr>m_argv := prog # pre\<rparr>) st = Inr st1"
  shows "parse fx (cl\<lparr>m_argv := prog # pre @ [flag]\<rparr>) st =
           Inr (st1\<lparr>bools := (bools st1)(p := True)\<rparr>)
       \<and> parse fx (cl\<lparr>m_argv := prog # pre @ [flag @ ''=false'']\<rparr>) st =
           Inr (st1\<lparr>bools := (bools st1)(p := False)\<rparr>)
       \<and> (val \<noteq> ''false'' \<longrightarrow>
            parse fx (cl\<lparr>m_argv := prog # pre @ [flag @ ''='' @ val]\<rparr>) st =
              Inr (st1\<lparr>bools := (bools st1)(p := True)\<rparr>))"
proof -
  have it: "parse_iteration fx (mArguments cl) tok st1 =
              Inr (True, False, st1\<lparr>bools := (bools st1)(p := (v \<noteq> ''false''))\<rparr>)"
    if "split_token tok = (flag, v)" for tok v
    using that assms(2,3) by (simp add: parse_iteration_matching store_value_def)
  have a: "split_token flag = (flag, [])"
    using assms(1) by (rule split_token_plain)
  have b: "split_token (flag @ ''='' @ v) = (flag, v)" for v
    using split_token_attached [OF assms(1)] by simp
  have c: "flag @ ''=false'' = flag @ ''='' @ ''false''" by simp
  show ?thesis
    using assms(4) it [OF a] it [OF b] 
    by (simp add: parse_argv run_tokens_append c del: append.simps)
qed

theorem boolean_flag_value_witness:
  "parse keep_float (demo_cl [''prog'', ''--name=x'', ''-v'']) demo_store =
     Inr (demo_store\<lparr>strings := (strings demo_store)(0 := ''x''), bools := (bools demo_store)(0 := True)\<rparr>)
   \<and> parse keep_float (demo_cl [''prog'', ''--name=x'', ''-v=false'']) demo_store =
     Inr (demo_store\<lparr>strings := (strings demo_store)(0 := ''x''), bools := (bools demo_store)(0 := False)\<rparr>)
   \<and> parse keep_float (demo_cl [''prog'', ''--name=x'', ''-v=xyz'']) demo_store =
     Inr (demo_store\<lparr>strings := (strings demo_store)(0 := ''x''), bools := (bools demo_store)(0 := True)\<rparr>)"
proof -
  have 1: "CHR ''='' \<notin> set ''-v''" by simp
  have 2: "matching_argument (mArguments (demo_cl [])) ''-v'' = Some \<lparr>mFlags = [''-v'', ''--verbose''], mValue = Some (BoolPtr 0), mHelp = ''Be chatty.''\<rparr>"
    by (simp add: demo_eval)
  have 3: "parse keep_float ((demo_cl [])\<lparr>m_argv := ''prog'' # [''--name=x'']\<rparr>) demo_store = Inr (demo_store\<lparr>strings := (strings demo_store)(0 := ''x'')\<rparr>)"
    by (simp add: demo_eval)
  show ?thesis
    using boolean_flag_value [OF 1 2 _ 3, of 0 "''xyz''"]
    by (simp add: demo_cl_def)
qed

text \<open>
  C3, as stated, does not hold: the text \<open>abc\<close> for an \<open>int\<close> destination holding 5 does
  not raise, but the destination holds 0 afterwards, since a failed extraction stores zero;
  and the text \<open>12abc\<close> leaves 12 there, the value of its leading digits.
\<close>

theorem malformed_number_counterexample:
  "parse keep_float (demo_cl [''prog'', ''--rate=abc'']) demo_store =
     Inr (demo_store\<lparr>ints := (ints demo_store)(0 := 0)\<rparr>)
   \<and> ints (demo_store\<lparr>ints := (ints demo_store)(0 := 0)\<rparr>) 0 \<noteq> ints demo_store 0
   \<and> parse keep_float (demo_cl [''prog'', ''--rate=12abc'']) demo_store =
     Inr (demo_store\<lparr>ints := (ints demo_store)(0 := 12)\<rparr>)
   \<and> ints (demo_store\<lparr>ints := (ints demo_store)(0 := 12)\<rparr>) 0 \<noteq> ints demo_store 0"
  by (simp add: demo_eval extract_int_def isspace_def isdigit_def decimal_def digit_val_def
        clamp_int_def INT_MIN_def INT_MAX_def)

text \<open>
  C3, amended. A token with a non-empty attached value whose flag selects an argument bound to
  a numeric destination never raises, and the destination receives what the unchecked stream
  extraction stores. It keeps its old content when the text is white space throughout; for
  every other text it is overwritten with a value that depends on the text alone, so that for
  an \<open>int\<close> destination white space throughout is the only text that preserves whatever
  the destination held. For an \<open>int\<close> destination the value is found after the leading
  white space and an optional sign: zero when no digit follows, otherwise the value of the
  digits that follow, negated after a minus sign and brought into the range of \<open>int\<close>.
  For a floating-point destination, with the library's extraction \<open>extract_float\<close> for
  \<open>fx\<close>, it is zero when the first character after the white space cannot begin a number,
  and otherwise what the library's conversion makes of the text.
\<close>

theorem numeric_flag_never_raises:
  assumes "CHR ''='' \<notin> set flag"
    and "matching_argument (mArguments cl) flag = Some a"
    and "val \<noteq> []"
    and "parse fx (cl\<lparr>m_argv := prog # pre\<rparr>) st = Inr st1"
  shows "(mValue a = Some (IntPtr p) \<longrightarrow>
            parse fx (cl\<lparr>m_argv := prog # pre @ [flag @ ''='' @ val]\<rparr>) st =
              Inr (st1\<lparr>ints := (ints st1)(p := extract_int val (ints st1 p))\<rparr>))
       \<and> (mValue a = Some (FloatPtr p) \<longrightarrow>
            parse fx (cl\<lparr>m_argv := prog # pre @ [flag @ ''='' @ val]\<rparr>) st =
              Inr (st1\<lparr>floats := (floats st1)(p := fx val (floats st1 p))\<rparr>))
       \<and> (\<not> isspace (hd val) \<and> hd val \<notin> set ''0123456789+-'' \<longrightarrow> extract_int val old = 0)
       \<and> ((\<forall>c \<in> set val. isspace c) \<longrightarrow> extract_int val old = old)
       \<and> (ds \<noteq> [] \<and> (\<forall>c \<in> set ds. isdigit c) \<and> (rest = [] \<or> \<not> isdigit (hd rest)) \<longrightarrow>
            extract_int (ds @ rest) old = clamp_int (int (decimal ds)))
       \<and> ((\<forall>x. extract_int val x = x) \<longleftrightarrow> (\<forall>c \<in> set val. isspace c))
       \<and> (\<not> (\<forall>c \<in> set val. isspace c) \<longrightarrow> extract_int val old = extract_int val old')
       \<and> ((\<forall>c \<in> set ws. isspace c) \<and> (sg = [] \<or> sg = ''-'' \<or> sg = ''+'')
            \<and> (\<forall>c \<in> set ds. isdigit c) \<and> (rest = [] \<or> \<not> isdigit (hd rest))
            \<and> (sg = [] \<and> ds = [] \<longrightarrow>
                  rest \<noteq> [] \<and> \<not> isspace (hd rest) \<and> hd rest \<noteq> CHR ''-'' \<and> hd rest \<noteq> CHR ''+'')
            \<longrightarrow> extract_int (ws @ sg @ ds @ rest) old =
                  (if ds = [] then 0
                   else clamp_int (if sg = ''-'' then - int (decimal ds) else int (decimal ds))))
       \<and> (fx = extract_float convert zero \<and> mValue a = Some (FloatPtr p) \<longrightarrow>
            parse fx (cl\<lparr>m_argv := prog # pre @ [flag @ ''='' @ val]\<rparr>) st =
              Inr (st1\<lparr>floats := (floats st1)(p :=
                     (if \<forall>c \<in> set val. isspace c then floats st1 p
                      else if hd (dropWhile isspace val)
                                \<notin> set ''0123456789abcdefxABCDEFX+-.pPiInN'' then zero
                      else convert (dropWhile isspace val)))\<rparr>))
       \<and> (\<not> (\<forall>c \<in> set val. isspace c) \<longrightarrow>
            extract_float convert zero val y = extract_float convert zero val y')"
proof -
  have b: "split_token (flag @ ''='' @ val) = (flag, val)"
    using split_token_attached [OF assms(1)] by simp
  have i: "parse_iteration fx (mArguments cl) (flag @ ''='' @ val) st1 =
             Inr (True, False, st1\<lparr>ints := (ints st1)(p := extract_int val (ints st1 p))\<rparr>)"
    if "mValue a = Some (IntPtr p)"
    using that b assms(2,3) by (simp add: parse_iteration_matching store_value_def del: append.simps)
  have f: "parse_iteration fx (mArguments cl) (flag @ ''='' @ val) st1 =
             Inr (True, False, st1\<lparr>floats := (floats st1)(p := fx val (floats st1 p))\<rparr>)"
    if "mValue a = Some (FloatPtr p)"
    using that b assms(2,3) by (simp add: parse_iteration_matching store_value_def del: append.simps)
  have z: "\<not> isspace (hd val) \<and> hd val \<notin> set ''0123456789+-'' \<longrightarrow> extract_int val old = 0"
    using assms(3) extract_int_no_numeral [of val old] by (auto simp: isdigit_def)
  have n: "ds \<noteq> [] \<and> (\<forall>c \<in> set ds. isdigit c) \<and> (rest = [] \<or> \<not> isdigit (hd rest)) \<longrightarrow>
            extract_int (ds @ rest) old = clamp_int (int (decimal ds))"
    using extract_int_numeral [of ds rest old] by blast
  have pi: "mValue a = Some (IntPtr p) \<longrightarrow>
            parse fx (cl\<lparr>m_argv := prog # pre @ [flag @ ''='' @ val]\<rparr>) st =
              Inr (st1\<lparr>ints := (ints st1)(p := extract_int val (ints st1 p))\<rparr>)"
    using assms(4) i by (simp add: parse_argv run_tokens_append del: append.simps)
  have pf: "mValue a = Some (FloatPtr p) \<longrightarrow>
            parse fx (cl\<lparr>m_argv := prog # pre @ [flag @ ''='' @ val]\<rparr>) st =
              Inr (st1\<lparr>floats := (floats st1)(p := fx val (floats st1 p))\<rparr>)"
    using assms(4) f by (simp add: parse_argv run_tokens_append del: append.simps)
  have u: "(\<forall>x. extract_int val x = x) \<longleftrightarrow> (\<forall>c \<in> set val. isspace c)"
    by (rule extract_int_unchanged_iff)
  have d: "\<not> (\<forall>c \<in> set val. isspace c) \<longrightarrow> extract_int val old = extract_int val old'"
    using extract_int_independent [of val old old'] by blast
  have g: "(\<forall>c \<in> set ws. isspace c) \<and> (sg = [] \<or> sg = ''-'' \<or> sg = ''+'')
            \<and> (\<forall>c \<in> set ds. isdigit c) \<and> (rest = [] \<or> \<not> isdigit (hd rest))
            \<and> (sg = [] \<and> ds = [] \<longrightarrow>
                  rest \<noteq> [] \<and> \<not> isspace (hd rest) \<and> hd rest \<noteq> CHR ''-'' \<and> hd rest \<noteq> CHR ''+'')
            \<longrightarrow> extract_int (ws @ sg @ ds @ rest) old =
                  (if ds = [] then 0
                   else clamp_int (if sg = ''-'' then - int (decimal ds) else int (decimal ds)))"
    using extract_int_field [of ws sg ds rest old] by blast
  have xf: "extract_float convert zero val q =
              (if \<forall>c \<in> set val. isspace c then q
               else if hd (dropWhile isspace val)
                         \<notin> set ''0123456789abcdefxABCDEFX+-.pPiInN'' then zero
               else convert (dropWhile isspace val))" for q
    by (simp only: extract_float_def Let_def dropWhile_eq_Nil_conv)
  have px: "fx = extract_float convert zero \<and> mValue a = Some (FloatPtr p) \<longrightarrow>
            parse fx (cl\<lparr>m_argv := prog # pre @ [flag @ ''='' @ val]\<rparr>) st =
              Inr (st1\<lparr>floats := (floats st1)(p :=
                     (if \<forall>c \<in> set val. isspace c then floats st1 p
                      else if hd (dropWhile isspace val)
                                \<notin> set ''0123456789abcdefxABCDEFX+-.pPiInN'' then zero
                      else convert (dropWhile isspace val)))\<rparr>)"
  proof (intro impI)
    assume h: "fx = extract_float convert zero \<and> mValue a = Some (FloatPtr p)"
    with pf have "parse fx (cl\<lparr>m_argv := prog # pre @ [flag @ ''='' @ val]\<rparr>) st =
              Inr (st1\<lparr>floats := (floats st1)(p := fx val (floats st1 p))\<rparr>)"
      by blast
    moreover from h have "fx val (floats st1 p) = extract_float convert zero val (floats st1 p)"
      by simp
    ultimately show "parse fx (cl\<lparr>m_argv := prog # pre @ [flag @ ''='' @ val]\<rparr>) st =
              Inr (st1\<lparr>floats := (floats st1)(p :=
                     (if \<forall>c \<in> set val. isspace c then floats st1 p
                      else if hd (dropWhile isspace val)
                                \<notin> set ''0123456789abcdefxABCDEFX+-.pPiInN'' then zero
                      else convert (dropWhile isspace val)))\<rparr>)"
      by (simp only: xf)
  qed
  have df: "\<not> (\<forall>c \<in> set val. isspace c) \<longrightarrow>
            extract_float convert zero val y = extract_float convert zero val y'"
    using extract_float_independent [of val convert zero y y'] by blast
  have bl: "(\<forall>c \<in> set val. isspace c) \<longrightarrow> extract_int val old = old"
    using extract_int_blank [of val old] by blast
  from pi pf z bl n u d g px df show ?thesis
    by (intro conjI)
qed

theorem numeric_flag_never_raises_witness:
  "parse keep_float (demo_cl [''prog'', ''-v'', ''--rate=12abc'']) demo_store =
     Inr (demo_store\<lparr>bools := (bools demo_store)(0 := True), ints := (ints demo_store)(0 := 12)\<rparr>)
   \<and> extract_int ''12abc'' 7 = 12
   \<and> extract_int '' -7x'' 5 = - 7
   \<and> parse (extract_float (\<lambda>s. 1) 0) (demo_cl [''prog'', ''-v'', ''--gain=?'']) demo_gain_store =
     Inr (demo_gain_store\<lparr>bools := (bools demo_gain_store)(0 := True),
            floats := (floats demo_gain_store)(0 := 0)\<rparr>)"
proof -
  have 1: "CHR ''='' \<notin> set ''--rate''" by simp
  have 2: "matching_argument (mArguments (demo_cl [])) ''--rate'' = Some \<lparr>mFlags = [''-r'', ''--rate''], mValue = Some (IntPtr 0), mHelp = ''Sample rate.''\<rparr>"
    by (simp add: demo_eval)
  have 3: "parse keep_float ((demo_cl [])\<lparr>m_argv := ''prog'' # [''-v'']\<rparr>) demo_store = Inr (demo_store\<lparr>bools := (bools demo_store)(0 := True)\<rparr>)"
    by (simp add: demo_eval)
  have 4: "''12abc'' \<noteq> []" by simp
  have 5: "extract_int ''12abc'' old = 12" for old
    by (simp add: extract_int_def isspace_def isdigit_def decimal_def digit_val_def
          clamp_int_def INT_MIN_def INT_MAX_def)
  have sp: "\<forall>c \<in> set '' ''. isspace c" by (simp add: isspace_def)
  have dg: "\<forall>c \<in> set ''7''. isdigit c" by (simp add: isdigit_def)
  have nd: "\<not> isdigit (hd ''x'')" by (simp add: isdigit_def)
  have dv: "clamp_int (- int (decimal ''7'')) = - 7"
    by (simp add: decimal_def digit_val_def clamp_int_def INT_MIN_def INT_MAX_def)
  have a: "parse keep_float (demo_cl [''prog'', ''-v'', ''--rate=12abc'']) demo_store =
     Inr (demo_store\<lparr>bools := (bools demo_store)(0 := True), ints := (ints demo_store)(0 := 12)\<rparr>)
   \<and> extract_int ''12abc'' 7 = 12 \<and> extract_int '' -7x'' 5 = - 7"
    using numeric_flag_never_raises [OF 1 2 4 3, where p = 0 and old = 5 and ds = "''7''"
      and rest = "''x''" and ws = "'' ''" and sg = "''-''"] sp dg nd dv
    by (simp add: demo_cl_def demo_store_def 5)
  have 6: "CHR ''='' \<notin> set ''--gain''" by simp
  have 7: "matching_argument (mArguments (demo_cl [])) ''--gain'' = Some \<lparr>mFlags = [''--gain''], mValue = Some (FloatPtr 0), mHelp = ''Gain.''\<rparr>"
    by (simp add: demo_eval)
  have 8: "parse (extract_float (\<lambda>s. 1) 0) ((demo_cl [])\<lparr>m_argv := ''prog'' # [''-v'']\<rparr>) demo_gain_store =
             Inr (demo_gain_store\<lparr>bools := (bools demo_gain_store)(0 := True)\<rparr>)"
    by (simp add: demo_eval demo_gain_store_def)
  have 9: "''?'' \<noteq> []" by simp
  have b: "parse (extract_float (\<lambda>s. 1) 0) (demo_cl [''prog'', ''-v'', ''--gain=?'']) demo_gain_store =
     Inr (demo_gain_store\<lparr>bools := (bools demo_gain_store)(0 := True),
            floats := (floats demo_gain_store)(0 := 0)\<rparr>)"
    using numeric_flag_never_raises [OF 6 7 9 8, where p = 0 and convert = "\<lambda>s. 1" and zero = 0
      and old = 0 and old' = 0 and ds = "[]" and rest = "[]" and ws = "[]" and sg = "[]"
      and y = 0 and y' = 0]
    by (simp add: demo_cl_def demo_gain_store_def isspace_def extract_float_def)
  from a b show ?thesis by simp
qed

text \<open>
  C5. A token whose flag matches no registered alias appends the warning quoting the flag to
  the error stream and changes nothing else; \<open>parse\<close> goes on with the next token, and its
  outcome (the exception, if a later token throws, and all destinations) is the one it has
  without the unknown token.
\<close>

theorem unknown_token_is_skipped:
  assumes "matching_argument (mArguments cl) (fst (split_token tok)) = None"
  shows "(parse fx (cl\<lparr>m_argv := prog # pre\<rparr>) st = Inr st1 \<longrightarrow>
            parse fx (cl\<lparr>m_argv := prog # pre @ [tok]\<rparr>) st =
              Inr (st1\<lparr>cerr := cerr st1 @ ''Ignoring unknown command line argument ''
                     @ [CHR 0x22] @ fst (split_token tok) @ [CHR 0x22] @ ''.'' @ [CHR 0x0A]\<rparr>))
       \<and> outcome_memory (parse fx (cl\<lparr>m_argv := prog # pre @ tok # post\<rparr>) st) =
           outcome_memory (parse fx (cl\<lparr>m_argv := prog # pre @ post\<rparr>) st)"
proof -
  have it: "parse_iteration fx (mArguments cl) tok s =
              Inr (False, False, s\<lparr>cerr := cerr s @ unknown_argument_warning (fst (split_token tok))\<rparr>)" for s
    using assms by (simp add: parse_iteration_matching)
  have 1: "parse fx (cl\<lparr>m_argv := prog # pre\<rparr>) st = Inr st1 \<longrightarrow>
            parse fx (cl\<lparr>m_argv := prog # pre @ [tok]\<rparr>) st =
              Inr (st1\<lparr>cerr := cerr st1 @ unknown_argument_warning (fst (split_token tok))\<rparr>)"
    by (simp add: parse_argv run_tokens_append it)
  have 2: "outcome_memory (parse fx (cl\<lparr>m_argv := prog # pre @ tok # post\<rparr>) st) =
           outcome_memory (parse fx (cl\<lparr>m_argv := prog # pre @ post\<rparr>) st)"
  proof (cases "run_tokens fx (mArguments cl) pre st")
    case (Inl e)
    then show ?thesis by (simp add: parse_argv run_tokens_append)
  next
    case (Inr s)
    have "memory (s\<lparr>cerr := cerr s @ unknown_argument_warning (fst (split_token tok))\<rparr>) = memory s"
      by (simp add: memory_def)
    from run_tokens_memory [OF this] Inr show ?thesis
      by (simp add: parse_argv run_tokens_append it)
  qed
  from 1 2 show ?thesis by (simp add: unknown_argument_warning_def)
qed

theorem unknown_token_is_skipped_witness:
  "parse keep_float (demo_cl [''prog'', ''-v'', ''--bogus'']) demo_store =
     Inr (demo_store\<lparr>bools := (bools demo_store)(0 := True),
            cerr := ''Ignoring unknown command line argument '' @ [CHR 0x22] @ ''--bogus'' @ [CHR 0x22] @ ''.'' @ [CHR 0x0A]\<rparr>)
   \<and> outcome_memory (parse keep_float (demo_cl [''prog'', ''-v'', ''--bogus'', ''--rate=48000'', ''--name='']) demo_store) =
     outcome_memory (parse keep_float (demo_cl [''prog'', ''-v'', ''--rate=48000'', ''--name='']) demo_store)"
proof -
  have 1: "matching_argument (mArguments (demo_cl [])) (fst (split_token ''--bogus'')) = None"
    by (simp add: demo_eval)
  have 3: "parse keep_float ((demo_cl [])\<lparr>m_argv := ''prog'' # [''-v'']\<rparr>) demo_store = Inr (demo_store\<lparr>bools := (bools demo_store)(0 := True)\<rparr>)"
    by (simp add: demo_eval)
  have 4: "fst (split_token ''--bogus'') = ''--bogus''" by (simp add: demo_eval)
  show ?thesis
    using unknown_token_is_skipped [OF 1, of keep_float "''prog''" "[''-v'']" demo_store
       "demo_store\<lparr>bools := (bools demo_store)(0 := True)\<rparr>" "[''--rate=48000'', ''--name='']"] 3
    by (simp add: 4 demo_cl_def demo_store_def)
qed

text \<open>
  C6. A token \<open>flag=value\<close> with a non-empty value, whose flag selects an argument bound to
  a string destination, is split at its first \<open>=\<close>, and the whole remainder, further
  \<open>=\<close> characters included, is stored in the destination.
\<close>

theorem string_flag_takes_remainder:
  assumes "CHR ''='' \<notin> set flag"
    and "matching_argument (mArguments cl) flag = Some a"
    and "mValue a = Some (StringPtr p)"
    and "val \<noteq> []"
    and "parse fx (cl\<lparr>m_argv := prog # pre\<rparr>) st = Inr st1"
  shows "split_token (flag @ ''='' @ val) = (flag, val)
       \<and> parse fx (cl\<lparr>m_argv := prog # pre @ [flag @ ''='' @ val]\<rparr>) st =
           Inr (st1\<lparr>strings := (strings st1)(p := val)\<rparr>)"
proof -
  have b: "split_token (flag @ ''='' @ val) = (flag, val)"
    using split_token_attached [OF assms(1)] by simp
  then have "parse_iteration fx (mArguments cl) (flag @ ''='' @ val) st1 =
               Inr (True, False, st1\<lparr>strings := (strings st1)(p := val)\<rparr>)"
    using assms(2-4) by (simp add: parse_iteration_matching store_value_def del: append.simps)
  then show ?thesis
    using assms(5) b by (simp add: parse_argv run_tokens_append del: append.simps)
qed

theorem string_flag_takes_remainder_witness:
  "split_token ''--name=a=b=c'' = (''--name'', ''a=b=c'')
   \<and> parse keep_float (demo_cl [''prog'', ''-v'', ''--name=a=b=c'']) demo_store =
       Inr (demo_store\<lparr>bools := (bools demo_store)(0 := True), strings := (strings demo_store)(0 := ''a=b=c'')\<rparr>)"
proof -
  have 1: "CHR ''='' \<notin> set ''--name''" by simp
  have 2: "matching_argument (mArguments (demo_cl [])) ''--name'' = Some \<lparr>mFlags = [''-n'', ''--name''], mValue = Some (StringPtr 0), mHelp = ''Name of the device.''\<rparr>"
    by (simp add: demo_eval)
  have 3: "parse keep_float ((demo_cl [])\<lparr>m_argv := ''prog'' # [''-v'']\<rparr>) demo_store = Inr (demo_store\<lparr>bools := (bools demo_store)(0 := True)\<rparr>)"
    by (simp add: demo_eval)
  have 4: "''a=b=c'' \<noteq> []" by simp
  show ?thesis
    using string_flag_takes_remainder [OF 1 2 _ 4 3, of 0]
    by (simp add: demo_cl_def)
qed

text \<open>
  C7. Every pass through the loop body that does not throw leaves \<open>valueIsSeparate\<close> false
  and advances the index by exactly one; the loop started at any index, and \<open>parse\<close> as a
  whole, process the remaining tokens one by one, each with the value found in the token
  itself.
\<close>

theorem one_token_per_iteration:
  "(parse_iteration fx (mArguments cl) (m_argv cl ! i) st = Inr (foundArgument, valueIsSeparate, st')
      \<longrightarrow> \<not> valueIsSeparate \<and> next_index i foundArgument valueIsSeparate = i + 1)
   \<and> parse_from fx cl i st = run_tokens fx (mArguments cl) (drop i (m_argv cl)) st
   \<and> parse fx cl st = run_tokens fx (mArguments cl) (drop 1 (m_argv cl)) st"
  using parse_iteration_sep [of fx "mArguments cl" "m_argv cl ! i" st foundArgument valueIsSeparate st']
  by (auto simp: next_index_def parse_from_run_tokens parse_def)

theorem one_token_per_iteration_witness:
  "parse keep_float (demo_cl [''prog'', ''--name'', ''mic'']) demo_store =
     Inl (RuntimeError (missing_value_message ''--name''), demo_store)"
  using one_token_per_iteration [of keep_float "demo_cl [''prog'', ''--name'', ''mic'']" 1 demo_store True False demo_store]
  by (simp add: demo_eval)

text \<open>
  C8. When \<open>parse\<close> throws at a token, the store it leaves is exactly the store reached
  after the tokens before it: what they wrote stays written, the failing token writes nothing,
  and the tokens after it have no effect. The exception is the missing-value error for the
  flag of that token.
\<close>

theorem abort_keeps_earlier_writes:
  assumes "parse fx (cl\<lparr>m_argv := prog # pre\<rparr>) st = Inr st1"
    and "parse fx (cl\<lparr>m_argv := prog # pre @ [tok]\<rparr>) st = Inl (e, s)"
  shows "s = st1 \<and> parse fx (cl\<lparr>m_argv := prog # pre @ tok # post\<rparr>) st = Inl (e, st1)
       \<and> e = RuntimeError (missing_value_message (fst (split_token tok)))"
proof -
  from assms have it: "parse_iteration fx (mArguments cl) tok st1 = Inl (e, s)"
    by (simp add: parse_argv run_tokens_append split: sum.splits prod.splits)
  then have "s = st1 \<and> e = RuntimeError (missing_value_message (fst (split_token tok)))"
    by (auto simp: parse_iteration_matching store_value_def
             split: option.splits sum.splits if_splits Value.splits)
  with it assms(1) show ?thesis
    by (simp add: parse_argv run_tokens_append)
qed

theorem abort_keeps_earlier_writes_witness:
  "parse keep_float (demo_cl [''prog'', ''-v'', ''--name=mic'', ''--rate'', ''--name=other'', ''-v=false'']) demo_store =
     Inl (RuntimeError (missing_value_message ''--rate''),
          demo_store\<lparr>bools := (bools demo_store)(0 := True), strings := (strings demo_store)(0 := ''mic'')\<rparr>)"
proof -
  have 1: "parse keep_float ((demo_cl [])\<lparr>m_argv := ''prog'' # [''-v'', ''--name=mic'']\<rparr>) demo_store =
     Inr (demo_store\<lparr>bools := (bools demo_store)(0 := True), strings := (strings demo_store)(0 := ''mic'')\<rparr>)"
    by (simp add: demo_eval)
  have 2: "parse keep_float ((demo_cl [])\<lparr>m_argv := ''prog'' # [''-v'', ''--name=mic''] @ [''--rate'']\<rparr>) demo_store =
     Inl (RuntimeError (missing_value_message ''--rate''), demo_store\<lparr>bools := (bools demo_store)(0 := True), strings := (strings demo_store)(0 := ''mic'')\<rparr>)"
    by (simp add: demo_eval)
  show ?thesis
    using abort_keeps_earlier_writes [OF 1 2, of "[''--name=other'', ''-v=false'']"]
    by (simp add: demo_cl_def)
qed




text \<open>
  C10. The flag compared with the registered aliases never contains \<open>=\<close>, so it differs
  from every alias that contains one; an argument all of whose aliases contain \<open>=\<close> is
  never the one selected; and removing such aliases from the registry changes nothing in what
  \<open>parse\<close> does.
\<close>

theorem alias_with_equals_never_matches:
  "CHR ''='' \<notin> set (fst (split_token tok))
   \<and> (CHR ''='' \<in> set alias \<longrightarrow> fst (split_token tok) \<noteq> alias)
   \<and> ((\<forall>alias \<in> set (mFlags a). CHR ''='' \<in> set alias) \<longrightarrow>
         matching_argument (mArguments cl) (fst (split_token tok)) \<noteq> Some a)
   \<and> parse fx (cl\<lparr>mArguments := map reachable_flags (mArguments cl)\<rparr>) st = parse fx cl st"
  using split_token_flag_no_eq [of tok]
    matching_argument_Some [of "mArguments cl" "fst (split_token tok)" a]
  by (auto simp: parse_run_tokens run_tokens_reachable)

theorem alias_with_equals_never_matches_witness:
  "parse keep_float
     \<lparr>mDescription = [], m_argv = [''prog'', ''--opt=x''],
        mArguments = [\<lparr>mFlags = [''--opt=x''], mValue = Some (BoolPtr 0), mHelp = []\<rparr>]\<rparr>
     demo_store =
   Inr (demo_store\<lparr>cerr := unknown_argument_warning ''--opt''\<rparr>)
   \<and> fst (split_token ''--opt=x'') \<noteq> ''--opt=x''"
  using alias_with_equals_never_matches [of "''--opt=x''" "''--opt=x''" _
     "\<lparr>mDescription = [], m_argv = [''prog'', ''--opt=x''],
        mArguments = [\<lparr>mFlags = [''--opt=x''], mValue = Some (BoolPtr 0), mHelp = []\<rparr>]\<rparr>"
     keep_float demo_store]
  by (simp add: reachable_flags_def parse_run_tokens parse_iteration_def split_token_def
       demo_store_def)

section \<open>\<open>printHelp\<close> produces the specified layout\<close>

lemma flagLength_foldl:
  "foldl (\<lambda>n flag. n + (of_nat (length flag) + 2)) a flags =
     (a + of_nat (spec_block_length flags) :: 32 word)"
  by (induction flags arbitrary: a) (simp_all add: spec_block_length_def ac_simps)

lemma flagLength_spec: "flagLength flags = of_nat (spec_block_length flags)"
  by (simp add: flagLength_def flagLength_foldl)

lemma unat_of_nat32: "n < 2 ^ 32 \<Longrightarrow> unat (of_nat n :: 32 word) = n"
  by (simp add: unat_of_nat)

lemma unat_of_nat64: "n < 2 ^ 64 \<Longrightarrow> unat (of_nat n :: 64 word) = n"
  by (simp add: unat_of_nat)

lemma max_of_nat32:
  "x < 2 ^ 32 \<Longrightarrow> y < 2 ^ 32 \<Longrightarrow> max (of_nat x) (of_nat y :: 32 word) = of_nat (max x y)"
  by (simp add: max_def word_le_nat_alt unat_of_nat32)

lemma maxFlagLength_foldl:
  "k < 2 ^ 32 \<Longrightarrow> \<forall>a \<in> set arguments. spec_block_length (mFlags a) < 2 ^ 32 \<Longrightarrow>
   foldl (\<lambda>m argument. max m (flagLength (mFlags argument))) (of_nat k) arguments =
     of_nat (max k (spec_maxFlagLength arguments))"
proof (induction arguments arbitrary: k)
  case Nil
  then show ?case by (simp add: spec_maxFlagLength_def)
next
  case (Cons a arguments)
  let ?b = "spec_block_length (mFlags a)"
  from Cons.prems have b: "?b < 2 ^ 32" by simp
  with Cons.prems(1) have m: "max k ?b < 2 ^ 32" by simp
  have "foldl (\<lambda>m argument. max m (flagLength (mFlags argument))) (of_nat k) (a # arguments) =
        foldl (\<lambda>m argument. max m (flagLength (mFlags argument))) (of_nat (max k ?b)) arguments"
    using Cons.prems(1) b by (simp add: flagLength_spec max_of_nat32)
  also have "\<dots> = of_nat (max (max k ?b) (spec_maxFlagLength arguments))"
    using Cons.IH [OF m] Cons.prems(2) by simp
  also have "max (max k ?b) (spec_maxFlagLength arguments) = max k (spec_maxFlagLength (a # arguments))"
    by (simp add: spec_maxFlagLength_def max.assoc)
  finally show ?case .
qed

lemma block_le_max:
  "a \<in> set arguments \<Longrightarrow> spec_block_length (mFlags a) \<le> spec_maxFlagLength arguments"
  by (induction arguments) (auto simp: spec_maxFlagLength_def)

lemma maxFlagLength_spec:
  assumes "spec_maxFlagLength arguments < 2 ^ 31"
  shows "maxFlagLength arguments = of_nat (spec_maxFlagLength arguments)"
proof -
  have "\<forall>a \<in> set arguments. spec_block_length (mFlags a) < 2 ^ 32"
    using assms block_le_max [of _ arguments] by fastforce
  from maxFlagLength_foldl [of 0, OF _ this] show ?thesis
    by (simp add: maxFlagLength_def)
qed

lemma sint_of_nat32: "n < 2 ^ 31 \<Longrightarrow> sint (of_nat n :: 32 word) = int n"
  by (simp add: signed_of_nat signed_take_bit_int_eq_self)

lemma sint_of_nat32_pred:
  assumes "0 < n" "n < 2 ^ 31"
  shows "sint ((of_nat n :: 32 word) - 1) = int n - 1"
proof -
  from assms(1) obtain k where k: "n = Suc k" by (cases n) auto
  with assms(2) have "k < 2 ^ 31" by simp
  then have "sint (of_nat k :: 32 word) = int k" by (rule sint_of_nat32)
  with k show ?thesis by simp
qed

lemma setw_left_spec: "setw_left (int m) s = spec_left_align m s"
  by (simp add: setw_left_def spec_left_align_def nat_diff_distrib')

lemma setw_left_blank: "2 \<le> m \<Longrightarrow> setw_left (int m - 1) '' '' = replicate (m - 1) CHR '' ''"
  by (simp add: setw_left_def nat_diff_distrib' flip: replicate_Suc)

lemma joined_flags_foldl:
  "foldl (\<lambda>s flag. s @ flag @ '', '') acc flags = acc @ concat (map (\<lambda>flag. flag @ '', '') flags)"
  by (induction flags arbitrary: acc) simp_all

lemma joined_flags_concat: "joined_flags flags = concat (map (\<lambda>flag. flag @ '', '') flags)"
  by (simp add: joined_flags_def joined_flags_foldl)

lemma length_joined_flags: "length (joined_flags flags) = spec_block_length flags"
  by (induction flags) (simp_all add: joined_flags_concat spec_block_length_def)

lemma joined_flags_join: "flags \<noteq> [] \<Longrightarrow> joined_flags flags = spec_join flags @ '', ''"
  by (induction flags rule: spec_join.induct) (simp_all add: joined_flags_concat)

lemma block_ge_2: "flags \<noteq> [] \<Longrightarrow> 2 \<le> spec_block_length flags"
  by (cases flags) (simp_all add: spec_block_length_def)

lemma alias_block_spec:
  assumes "spec_block_length flags < 2 ^ 64"
  shows "substr (joined_flags flags) 0
           (unat ((of_nat (length (joined_flags flags)) :: 64 word) - 2)) = spec_join flags"
proof (cases "flags = []")
  case True
  then show ?thesis by (simp add: joined_flags_def substr_def)
next
  case False
  from block_ge_2 [OF False] obtain k where k: "spec_block_length flags = k + 2"
    by (metis add.commute le_Suc_ex)
  with assms have "k < 2 ^ 64" by simp
  then have u: "unat (of_nat k :: 64 word) = k" by (rule unat_of_nat64)
  have l: "length (spec_join flags) = k"
    using length_joined_flags [of flags] joined_flags_join [OF False] k by simp
  have "substr (joined_flags flags) 0 (unat ((of_nat (k + 2) :: 64 word) - 2)) = spec_join flags"
    using joined_flags_join [OF False] u l by (simp add: substr_def)
  then show ?thesis by (simp only: length_joined_flags k)
qed

lemma find_char_takeWhile:
  "find_char c s = Some k \<Longrightarrow>
   take k s = takeWhile (\<lambda>x. x \<noteq> c) s \<and> drop k s = dropWhile (\<lambda>x. x \<noteq> c) s
   \<and> dropWhile (\<lambda>x. x \<noteq> c) s \<noteq> [] \<and> k < length s"
  by (induction s arbitrary: k) (auto split: if_splits)

lemma find_char_None_dropWhile:
  "find_char c s = None \<Longrightarrow> dropWhile (\<lambda>x. x \<noteq> c) s = []"
  by (induction s) (auto split: if_splits)

lemma spec_words_nonempty: "spec_words s \<noteq> []"
  by (cases s) simp_all

lemma last_chunk_width:
  assumes "w \<le> p" "p + 61 < 2 ^ 64"
  shows "60 < (of_nat w :: 64 word) + (of_nat npos - of_nat p)"
proof -
  from assms(1) obtain d where d: "p = w + d" by (metis le_Suc_ex)
  with assms(2) have dn: "d \<le> npos" "npos - d < 2 ^ 64" "60 < npos - d"
    by (simp_all add: npos_def)
  have "(of_nat w :: 64 word) + (of_nat npos - of_nat p) = of_nat npos - of_nat d"
    by (simp add: d)
  also have "\<dots> = of_nat (npos - d)"
    using dn(1) by (simp add: of_nat_diff)
  finally have "unat ((of_nat w :: 64 word) + (of_nat npos - of_nat p)) = npos - d"
    using dn(2) by (simp only: unat_of_nat64)
  with dn(3) show ?thesis by (simp add: word_less_nat_alt)
qed

lemma inner_chunk_width:
  assumes "p + j < 2 ^ 64" "w \<le> p"
  shows "(60 < (of_nat w :: 64 word) + (of_nat (p + j) - of_nat p)) = (60 < w + j)"
    and "(of_nat w :: 64 word) + (of_nat (p + j) - of_nat p) = of_nat (w + j)"
proof -
  show e: "(of_nat w :: 64 word) + (of_nat (p + j) - of_nat p) = of_nat (w + j)" by simp
  from assms have "w + j < 2 ^ 64" by simp
  then have "unat (of_nat (w + j) :: 64 word) = w + j" by (rule unat_of_nat64)
  then show "(60 < (of_nat w :: 64 word) + (of_nat (p + j) - of_nat p)) = (60 < w + j)"
    by (simp only: e word_less_nat_alt) simp
qed

lemma help_loop_spec:
  assumes len: "length help + 61 < 2 ^ 64"
    and pad: "setw_left (sint (width - 1)) '' '' = replicate padn CHR '' ''"
  shows "w \<le> p \<Longrightarrow> p \<le> length help \<Longrightarrow>
     help_loop width help p (of_nat w) sstr os =
       os @ concat (map (\<lambda>line. line @ newline) (spec_wrap padn sstr w (spec_words (drop p help))))"
proof (induction "length help - p" arbitrary: p w sstr os rule: less_induct)
  case less
  from less.prems(2) len have p61: "p + 61 < 2 ^ 64" by simp
  note big = last_chunk_width [OF less.prems(1) p61]
  show ?case
  proof (cases "drop p help")
    case Nil
    then have "find_first_of CHR '' '' help (p + 1) = None"
      by (simp add: find_first_of_def)
    with Nil big show ?thesis
      by (simp add: help_loop.simps [of width "help" p] substr_def)
  next
    case (Cons c cs)
    have pl: "p < length help"
    proof (rule ccontr)
      assume "\<not> p < length help"
      then have "drop p help = []" by simp
      with Cons show False by simp
    qed
    have "drop (Suc p) help = drop 1 (drop p help)" by simp
    then have cs: "drop (Suc p) help = cs" by (simp only: Cons) simp
    show ?thesis
    proof (cases "find_char CHR '' '' cs")
      case None
      then have f: "find_first_of CHR '' '' help (p + 1) = None"
        by (simp add: find_first_of_def cs)
      have "length (c # cs) \<le> npos - p"
        using len arg_cong [OF Cons, of length] by (simp add: npos_def)
      then have "substr help p (npos - p) = c # cs"
        by (simp add: substr_def Cons)
      with f big find_char_None_dropWhile [OF None] show ?thesis
        by (simp add: help_loop.simps [of width "help" p] Cons)
    next
      case (Some k)
      let ?n = "p + 1 + k"
      from find_char_takeWhile [OF Some]
      have tk: "take k cs = takeWhile (\<lambda>x. x \<noteq> CHR '' '') cs"
        and dk: "drop k cs = dropWhile (\<lambda>x. x \<noteq> CHR '' '') cs"
        and ne: "dropWhile (\<lambda>x. x \<noteq> CHR '' '') cs \<noteq> []"
        and kl: "k < length cs" by simp_all
      have f: "find_first_of CHR '' '' help (p + 1) = Some ?n"
        using Some by (simp add: find_first_of_def cs)
      have lcs: "length cs = length help - (p + 1)"
        using arg_cong [OF cs, of length] by simp
      with kl pl have nl: "?n < length help" by simp
      have chunk: "substr help p (?n - p) = c # takeWhile (\<lambda>x. x \<noteq> CHR '' '') cs"
        by (simp add: substr_def Cons tk)
      have "drop ?n help = drop k (drop (Suc p) help)" by (simp add: add.commute)
      then have dn: "drop ?n help = dropWhile (\<lambda>x. x \<noteq> CHR '' '') cs"
        by (simp only: cs dk)
      have n64: "p + (1 + k) < 2 ^ 64" using nl len by simp
      note iw = inner_chunk_width [OF n64 less.prems(1)]
      have wne: "spec_words (dropWhile (\<lambda>x. x \<noteq> CHR '' '') cs) \<noteq> []"
        by (rule spec_words_nonempty)
      have lt: "length help - ?n < length help - p" using nl by simp
      let ?word = "c # takeWhile (\<lambda>x. x \<noteq> CHR '' '') cs"
      have "length (take k cs) = k" using kl by simp
      then have lw: "length ?word = 1 + k" by (simp only: tk) simp
      have sw: "spec_words (drop p help) = ?word # spec_words (drop ?n help)"
        by (simp only: Cons dn spec_words.simps ne if_False)
      show ?thesis
      proof (cases "60 < w + (1 + k)")
        case True
        have "help_loop width help p (of_nat w) sstr os =
                help_loop width help ?n (of_nat 0) (replicate padn CHR '' '')
                  (os @ (sstr @ c # takeWhile (\<lambda>x. x \<noteq> CHR '' '') cs) @ newline)"
          using f chunk iw True
          by (simp add: help_loop.simps [of width "help" p] pad add.assoc)
        also have "\<dots> = (os @ (sstr @ c # takeWhile (\<lambda>x. x \<noteq> CHR '' '') cs) @ newline)
              @ concat (map (\<lambda>line. line @ newline)
                  (spec_wrap padn (replicate padn CHR '' '') 0 (spec_words (drop ?n help))))"
          using nl by (intro less.hyps [OF lt]) simp_all
        finally have step: "help_loop width help p (of_nat w) sstr os =
              os @ concat (map (\<lambda>line. line @ newline)
                ((sstr @ ?word)
                  # spec_wrap padn (replicate padn CHR '' '') 0 (spec_words (drop ?n help))))"
          by simp
        have "spec_wrap padn sstr w (?word # spec_words (drop ?n help)) =
                (sstr @ ?word)
                  # spec_wrap padn (replicate padn CHR '' '') 0 (spec_words (drop ?n help))"
          using True wne by (simp only: spec_wrap.simps lw dn) simp
        with step show ?thesis by (simp only: sw)
      next
        case False
        have "help_loop width help p (of_nat w) sstr os =
                help_loop width help ?n (of_nat (w + (1 + k)))
                  (sstr @ c # takeWhile (\<lambda>x. x \<noteq> CHR '' '') cs) os"
          using f chunk iw False
          by (simp add: help_loop.simps [of width "help" p] add.assoc add.left_commute)
        also have "\<dots> = os @ concat (map (\<lambda>line. line @ newline)
                  (spec_wrap padn (sstr @ c # takeWhile (\<lambda>x. x \<noteq> CHR '' '') cs)
                     (w + (1 + k)) (spec_words (drop ?n help))))"
          using nl less.prems(1) by (intro less.hyps [OF lt]) simp_all
        finally have step: "help_loop width help p (of_nat w) sstr os =
              os @ concat (map (\<lambda>line. line @ newline)
                (spec_wrap padn (sstr @ ?word) (w + (1 + k)) (spec_words (drop ?n help))))" .
        have "spec_wrap padn sstr w (?word # spec_words (drop ?n help)) =
                spec_wrap padn (sstr @ ?word) (w + (1 + k)) (spec_words (drop ?n help))"
          using False by (simp only: spec_wrap.simps lw) simp
        with step show ?thesis by (simp only: sw)
      qed
    qed
  qed
qed

lemma spec_block_length_not_1: "spec_block_length flags = 0 \<or> 2 \<le> spec_block_length flags"
  by (cases flags) (simp_all add: spec_block_length_def)

lemma spec_maxFlagLength_not_1:
  "spec_maxFlagLength arguments = 0 \<or> 2 \<le> spec_maxFlagLength arguments"
proof (induction arguments)
  case Nil
  then show ?case by (simp add: spec_maxFlagLength_def)
next
  case (Cons a arguments)
  have "spec_maxFlagLength (a # arguments) =
          max (spec_block_length (mFlags a)) (spec_maxFlagLength arguments)"
    by (simp add: spec_maxFlagLength_def)
  with Cons spec_block_length_not_1 [of "mFlags a"] show ?case by (auto simp: max_def)
qed

lemma print_argument_spec:
  assumes "0 < m" "m < 2 ^ 31" "spec_block_length (mFlags a) \<le> m"
    and "m = 0 \<or> 2 \<le> m"
    and "length (mHelp a) + 61 < 2 ^ 64"
  shows "print_argument (of_nat m) a os =
           os @ concat (map (\<lambda>line. line @ newline) (spec_argument_lines m a))"
proof -
  from assms(1,4) have m2: "2 \<le> m" by simp
  have pad: "setw_left (sint ((of_nat m :: 32 word) - 1)) '' '' = replicate (m - 1) CHR '' ''"
    using sint_of_nat32_pred [OF assms(1,2)] setw_left_blank [OF m2] by simp
  have "spec_block_length (mFlags a) < 2 ^ 64"
    using assms(2,3) by (simp add: order.strict_trans1 [OF _ less_trans [of m "2 ^ 31" "2 ^ 64"]])
  then have blk: "substr (joined_flags (mFlags a)) 0
           (unat ((of_nat (length (joined_flags (mFlags a))) :: 64 word) - 2)) = spec_join (mFlags a)"
    by (rule alias_block_spec)
  have "help_loop (of_nat m) (mHelp a) 0 (of_nat 0)
          (spec_left_align m (spec_join (mFlags a))) os =
        os @ concat (map (\<lambda>line. line @ newline)
          (spec_wrap (m - 1) (spec_left_align m (spec_join (mFlags a))) 0
             (spec_words (drop 0 (mHelp a)))))"
    by (rule help_loop_spec [OF assms(5) pad]) simp_all
  then show ?thesis
    by (simp add: print_argument_def Let_def blk sint_of_nat32 [OF assms(2)] setw_left_spec
          spec_argument_lines_def)
qed

lemma foldl_print:
  "\<forall>a \<in> set arguments. \<forall>os. f os a = os @ g a \<Longrightarrow>
   foldl f os arguments = os @ concat (map g arguments)"
  by (induction arguments arbitrary: os) simp_all

lemma replicate_numeral: "replicate (numeral k) x = x # replicate (pred_numeral k) x"
  by (simp add: numeral_eq_Suc)

text \<open>
  C4. For a registry with at least one alias, whose alias blocks stay below \<open>2^31\<close>
  characters and whose help texts are shorter than \<open>2^64 - 61\<close> characters,
  \<open>printHelp\<close> appends to the stream exactly the specified layout: the description line,
  then for every argument its comma-joined aliases left-aligned in a column as wide as the
  longest alias block, followed by the help text wrapped at the soft width 60, continuation
  lines starting with \<open>maxFlagLength - 1\<close> blanks. For an empty registry it prints the
  description line only.
\<close>

theorem printHelp_layout:
  assumes "0 < spec_maxFlagLength (mArguments cl)"
    and "spec_maxFlagLength (mArguments cl) < 2 ^ 31"
    and "\<forall>argument \<in> set (mArguments cl). length (mHelp argument) + 61 < 2 ^ 64"
  shows "printHelp cl os = os @ spec_printHelp cl
       \<and> printHelp (cl\<lparr>mArguments := []\<rparr>) os = os @ mDescription cl @ newline"
proof -
  let ?m = "spec_maxFlagLength (mArguments cl)"
  have w: "maxFlagLength (mArguments cl) = of_nat ?m"
    using assms(2) by (rule maxFlagLength_spec)
  have "\<forall>a \<in> set (mArguments cl). \<forall>os. print_argument (of_nat ?m) a os =
          os @ concat (map (\<lambda>line. line @ newline) (spec_argument_lines ?m a))"
    using assms spec_maxFlagLength_not_1 [of "mArguments cl"]
    by (auto intro!: print_argument_spec block_le_max)
  from foldl_print [of "mArguments cl" "\<lambda>os a. print_argument (of_nat ?m) a os", OF this]
  have "printHelp cl os = os @ spec_printHelp cl"
    by (simp add: printHelp_def w spec_printHelp_def)
  then show ?thesis by (simp add: printHelp_def)
qed

theorem printHelp_layout_witness:
  "printHelp help_cl [] =
     ''Capture audio.'' @ newline
     @ ''-h, --help    Print this help.'' @ newline
     @ ''-d, --device  Index of the audio input device to open for capturing, as shown'' @ newline
     @ ''              by the list of devices.'' @ newline"
proof -
  have m: "spec_maxFlagLength (mArguments help_cl) = 14"
    by (simp add: help_cl_def spec_maxFlagLength_def spec_block_length_def)
  have 1: "0 < spec_maxFlagLength (mArguments help_cl)" by (simp add: m)
  have 2: "spec_maxFlagLength (mArguments help_cl) < 2 ^ 31" by (simp add: m)
  have 3: "\<forall>argument \<in> set (mArguments help_cl). length (mHelp argument) + 61 < 2 ^ 64"
    by (simp add: help_cl_def)
  have "spec_printHelp help_cl =
     mDescription help_cl @ newline
       @ concat (map (\<lambda>argument.
           concat (map (\<lambda>line. line @ newline) (spec_argument_lines 14 argument)))
           (mArguments help_cl))"
    by (simp only: spec_printHelp_def m)
  also have "\<dots> =
     ''Capture audio.'' @ newline
     @ ''-h, --help    Print this help.'' @ newline
     @ ''-d, --device  Index of the audio input device to open for capturing, as shown'' @ newline
     @ ''              by the list of devices.'' @ newline"
    by (simp add: spec_argument_lines_def spec_left_align_def help_cl_def replicate_numeral)
  finally show ?thesis
    using printHelp_layout [OF 1 2 3, of "[]"] by simp
qed

end
